theory Spec2Isabelle
  imports Main
begin

section \<open>Data model\<close>

text \<open>
  Modelled from the spec: the \<open>Flight\<close> interface is declared in \<open>services/flightApi\<close>,
  which is not among the sources. The records below carry the fields that the search page
  reads (\<open>flight.airline\<close>, \<open>flight.price\<close>, \<open>flight.departure.stops\<close>,
  \<open>flight.return.stops\<close>, \<open>flight.departure.time\<close>, \<open>flight.duration\<close>,
  \<open>flight.baggageType\<close>, \<open>flight.id\<close>), typed as section 3 of the specification
  describes them. Airline codes and baggage tags are the strings the page compares them
  with; a price is a whole amount; the optional return leg is an option.
\<close>

record FlightLeg =
  airport :: string
  date :: string
  time :: string
  stops :: nat

record Flight =
  flightId :: string
  airline :: string
  price :: int
  departure :: FlightLeg
  returnLeg :: "FlightLeg option"
  duration :: string
  baggageType :: string

text \<open>
  The \<open>FilterOptions\<close> object held in the page's \<open>filters\<close> state. \<open>sortBy\<close> is the
  string that the comparator switches on.
\<close>

record FilterOptions =
  airlines :: "string list"
  showCheapestOnly :: bool
  directFlightsOnly :: bool
  show2pc :: bool
  sortBy :: string

section \<open>The stages of \<open>filterAndSortFlights\<close>\<close>

text \<open>\<open>flight => filters.airlines.includes(flight.airline)\<close>\<close>

definition airlineIncluded :: "FilterOptions \<Rightarrow> Flight \<Rightarrow> bool" where
  "airlineIncluded cfg flight = (airline flight \<in> set (airlines cfg))"

text \<open>
  The direct-flight callback: a one-way flight is judged on its departure leg, a round trip
  on both legs.
\<close>

definition isDirect :: "Flight \<Rightarrow> bool" where
  "isDirect flight =
     (case returnLeg flight of
        None \<Rightarrow> stops (departure flight) = 0
      | Some r \<Rightarrow> stops (departure flight) = 0 \<and> stops r = 0)"

text \<open>
  \<open>flight.airline === 'VJ' || flight.airline === 'VNA' && flight.baggageType === 'VFR'\<close>
\<close>

definition is2pc :: "Flight \<Rightarrow> bool" where
  "is2pc flight =
     (airline flight = ''VJ'' \<or> airline flight = ''VNA'' \<and> baggageType flight = ''VFR'')"

text \<open>
  \<open>(prev, current) => prev.price < current.price ? prev : current\<close>, and \<open>reduce\<close> without
  an initial value, guarded by \<open>length > 0\<close>: the empty array gives \<open>null\<close>.
\<close>

definition cheaper :: "Flight \<Rightarrow> Flight \<Rightarrow> Flight" where
  "cheaper prev current = (if price prev < price current then prev else current)"

fun cheapestOf :: "Flight list \<Rightarrow> Flight option" where
  "cheapestOf [] = None"
| "cheapestOf (x # xs) = Some (foldl cheaper x xs)"

text \<open>\<open>.filter(Boolean)\<close> on an array of flights and \<open>null\<close>s.\<close>

fun filterBoolean :: "'a option list \<Rightarrow> 'a list" where
  "filterBoolean [] = []"
| "filterBoolean (None # xs) = filterBoolean xs"
| "filterBoolean (Some x # xs) = x # filterBoolean xs"

subsection \<open>The comparator\<close>

text \<open>
  \<open>parseInt(s.replace(/[^\d]/g, ''))\<close>: the decimal digits of the string, read as a number;
  \<open>NaN\<close> (here \<open>None\<close>) when the string has no digit. Magnitudes are taken exactly.
\<close>

definition isDigit :: "char \<Rightarrow> bool" where
  "isDigit c = (CHR ''0'' = c \<or> CHR ''1'' = c \<or> CHR ''2'' = c \<or> CHR ''3'' = c \<or> CHR ''4'' = c
     \<or> CHR ''5'' = c \<or> CHR ''6'' = c \<or> CHR ''7'' = c \<or> CHR ''8'' = c \<or> CHR ''9'' = c)"

definition digitValue :: "char \<Rightarrow> int" where
  "digitValue c = int (of_char c) - 48"

definition parseDigits :: "string \<Rightarrow> int option" where
  "parseDigits s =
     (let ds = filter isDigit s
      in if ds = [] then None else Some (foldl (\<lambda>n c. 10 * n + digitValue c) 0 ds))"

text \<open>
  \<open>a.localeCompare(b)\<close> on time-of-day strings, taken as the comparison of the strings
  character by character: negative, zero or positive.
\<close>

fun localeCompare :: "string \<Rightarrow> string \<Rightarrow> int" where
  "localeCompare [] [] = 0"
| "localeCompare [] (b # bs) = - 1"
| "localeCompare (a # as) [] = 1"
| "localeCompare (a # as) (b # bs) =
     (if (of_char a :: nat) < of_char b then - 1
      else if (of_char b :: nat) < of_char a then 1
      else localeCompare as bs)"

text \<open>
  The callback passed to \<open>sort\<close>. A \<open>NaN\<close> difference (a duration without digits) is read
  by \<open>sort\<close> as \<open>0\<close>; the \<open>default\<close> branch returns \<open>0\<close>.
\<close>

definition compareFlights :: "string \<Rightarrow> Flight \<Rightarrow> Flight \<Rightarrow> int" where
  "compareFlights key a b =
     (if key = ''price'' then price a - price b
      else if key = ''duration'' then
        (case (parseDigits (duration a), parseDigits (duration b)) of
           (Some aDuration, Some bDuration) \<Rightarrow> aDuration - bDuration
         | _ \<Rightarrow> 0)
      else if key = ''departure'' then localeCompare (time (departure a)) (time (departure b))
      else 0)"

text \<open>
  \<open>Array.prototype.sort\<close> is a stable sort: an element moves in front of another only
  when the comparator puts it strictly before. It is modelled as the stable insertion sort.
\<close>

fun insertBy :: "('a \<Rightarrow> 'a \<Rightarrow> int) \<Rightarrow> 'a \<Rightarrow> 'a list \<Rightarrow> 'a list" where
  "insertBy cmp x [] = [x]"
| "insertBy cmp x (y # ys) = (if cmp x y \<le> 0 then x # y # ys else y # insertBy cmp x ys)"

definition sortWith :: "('a \<Rightarrow> 'a \<Rightarrow> int) \<Rightarrow> 'a list \<Rightarrow> 'a list" where
  "sortWith cmp xs = foldr (insertBy cmp) xs []"

section \<open>Arrays in a store\<close>

text \<open>
  \<open>filter\<close> returns a new array, \<open>sort\<close> sorts the array it is called on in place and
  returns it. Arrays therefore live in a store, addressed by references.
\<close>

record store =
  arrays :: "nat \<Rightarrow> Flight list"
  fresh :: nat

definition newArray :: "Flight list \<Rightarrow> store \<Rightarrow> nat \<times> store" where
  "newArray xs s = (fresh s, s\<lparr>arrays := (arrays s)(fresh s := xs), fresh := Suc (fresh s)\<rparr>)"

definition arrayFilter :: "(Flight \<Rightarrow> bool) \<Rightarrow> nat \<Rightarrow> store \<Rightarrow> nat \<times> store" where
  "arrayFilter p r s = newArray (filter p (arrays s r)) s"

definition arraySort :: "(Flight \<Rightarrow> Flight \<Rightarrow> int) \<Rightarrow> nat \<Rightarrow> store \<Rightarrow> nat \<times> store" where
  "arraySort cmp r s = (r, s\<lparr>arrays := (arrays s)(r := sortWith cmp (arrays s r))\<rparr>)"

subsection \<open>The four filter stages and the sort, on references\<close>

definition airlineStage :: "FilterOptions \<Rightarrow> nat \<Rightarrow> store \<Rightarrow> nat \<times> store" where
  "airlineStage cfg filtered s =
     (if length (airlines cfg) > 0 then arrayFilter (airlineIncluded cfg) filtered s
      else (filtered, s))"

definition directStage :: "FilterOptions \<Rightarrow> nat \<Rightarrow> store \<Rightarrow> nat \<times> store" where
  "directStage cfg filtered s =
     (if directFlightsOnly cfg then arrayFilter isDirect filtered s else (filtered, s))"

definition twoBagStage :: "FilterOptions \<Rightarrow> nat \<Rightarrow> store \<Rightarrow> nat \<times> store" where
  "twoBagStage cfg filtered s =
     (if show2pc cfg then arrayFilter is2pc filtered s else (filtered, s))"

definition cheapestStage :: "FilterOptions \<Rightarrow> nat \<Rightarrow> store \<Rightarrow> nat \<times> store" where
  "cheapestStage cfg filtered s =
     (if showCheapestOnly cfg then
        (case arrayFilter (\<lambda>f. airline f = ''VJ'') filtered s of
           (vjFlights, s1) \<Rightarrow>
             (case arrayFilter (\<lambda>f. airline f = ''VNA'') filtered s1 of
                (vnaFlights, s2) \<Rightarrow>
                  (let cheapestVJ = cheapestOf (arrays s2 vjFlights);
                       cheapestVNA = cheapestOf (arrays s2 vnaFlights)
                   in newArray (filterBoolean [cheapestVJ, cheapestVNA]) s2)))
      else (filtered, s))"

definition filterAndSortFlights :: "FilterOptions \<Rightarrow> nat \<Rightarrow> store \<Rightarrow> nat \<times> store" where
  "filterAndSortFlights cfg flights s =
     (case airlineStage cfg flights s of
        (filtered1, s1) \<Rightarrow>
          (case directStage cfg filtered1 s1 of
             (filtered2, s2) \<Rightarrow>
               (case twoBagStage cfg filtered2 s2 of
                  (filtered3, s3) \<Rightarrow>
                    (case cheapestStage cfg filtered3 s3 of
                       (filtered4, s4) \<Rightarrow>
                         arraySort (compareFlights (sortBy cfg)) filtered4 s4))))"

text \<open>
  A call on an array holding \<open>xs\<close>: the store has that one array, at reference \<open>0\<close>.
  \<open>evaluate\<close> is the content of the returned array, \<open>inputAfter\<close> the content of the
  argument array once the call has returned.
\<close>

definition storeOf :: "Flight list \<Rightarrow> store" where
  "storeOf xs = \<lparr>arrays = (\<lambda>_. [])(0 := xs), fresh = 1\<rparr>"

definition evaluate :: "FilterOptions \<Rightarrow> Flight list \<Rightarrow> Flight list" where
  "evaluate cfg xs = (case filterAndSortFlights cfg 0 (storeOf xs) of (r, s) \<Rightarrow> arrays s r)"

definition inputAfter :: "FilterOptions \<Rightarrow> Flight list \<Rightarrow> Flight list" where
  "inputAfter cfg xs = (case filterAndSortFlights cfg 0 (storeOf xs) of (r, s) \<Rightarrow> arrays s 0)"

section \<open>The search page\<close>

text \<open>
  The state cells of the page that the search touches: \<open>flights\<close>, \<open>loading\<close>, \<open>error\<close>,
  \<open>searchPerformed\<close> and \<open>filters\<close>. \<open>error\<close> holds a message or \<open>null\<close>; the two
  messages the page can set are told apart, their wording is not modelled.
\<close>

datatype errorMessage = SearchLocked | SearchFailed

record PageState =
  flights :: "Flight list"
  loading :: bool
  error :: "errorMessage option"
  searchPerformed :: bool
  filters :: FilterOptions

text \<open>The \<open>useState\<close> initial values.\<close>

definition initialPage :: PageState where
  "initialPage =
     \<lparr>flights = [], loading = False, error = None, searchPerformed = False,
      filters = \<lparr>airlines = [''VJ'', ''VNA''], showCheapestOnly = True,
                 directFlightsOnly = True, show2pc = True, sortBy = ''price''\<rparr>\<rparr>"

subsection \<open>\<open>handleSearch\<close>\<close>

definition availableAirlines :: "bool \<Rightarrow> bool \<Rightarrow> string list" where
  "availableAirlines canCheckVJ canCheckVNA =
     (if canCheckVJ then [''VJ''] else []) @ (if canCheckVNA then [''VNA''] else [])"

text \<open>
  The synchronous part of \<open>handleSearch\<close>, up to the point where the fetches are under way:
  without any permission it sets the error and returns; otherwise it clears the results and
  resets the filters.
\<close>

definition handleSearchStart :: "bool \<Rightarrow> bool \<Rightarrow> PageState \<Rightarrow> PageState" where
  "handleSearchStart canCheckVJ canCheckVNA st =
     (if \<not> canCheckVJ \<and> \<not> canCheckVNA then st\<lparr>error := Some SearchLocked\<rparr>
      else st\<lparr>loading := True, error := None, searchPerformed := True, flights := [],
              filters := \<lparr>airlines = availableAirlines canCheckVJ canCheckVNA,
                          showCheapestOnly = True, directFlightsOnly = True,
                          show2pc = True, sortBy = ''price''\<rparr>\<rparr>)"

text \<open>
  The \<open>then\<close> callback of a source's promise:
  \<open>if (batch.length > 0) setFlights(prev => [...prev, ...batch])\<close>. The \<open>catch\<close> callback only
  writes to the console.
\<close>

definition batchArrived :: "Flight list \<Rightarrow> PageState \<Rightarrow> PageState" where
  "batchArrived batch st = (if length batch > 0 then st\<lparr>flights := flights st @ batch\<rparr> else st)"

definition fetchFailed :: "PageState \<Rightarrow> PageState" where
  "fetchFailed st = st"

text \<open>An entry of the array that \<open>Promise.allSettled\<close> resolves to.\<close>

datatype settled = Fulfilled "Flight list" | Rejected

definition collectFulfilled :: "settled list \<Rightarrow> Flight list" where
  "collectFulfilled results =
     foldl (\<lambda>allFlights result.
              case result of Fulfilled v \<Rightarrow> allFlights @ v | Rejected \<Rightarrow> allFlights)
       [] results"

text \<open>
  The continuation of \<open>handleSearch\<close> after \<open>await Promise.allSettled(promises)\<close>: the
  filters are adjusted to what the fulfilled sources returned, and \<open>finally\<close> clears
  \<open>loading\<close>.
\<close>

definition handleSearchSettled :: "settled list \<Rightarrow> PageState \<Rightarrow> PageState" where
  "handleSearchSettled results st =
     (let allFlights = collectFulfilled results;
          hasDirectFlights = list_ex (\<lambda>f. stops (departure f) = 0) allFlights;
          hasVfr2pc = list_ex (\<lambda>f. airline f = ''VNA'' \<and> baggageType f = ''VFR'') allFlights;
          prev = filters st
      in st\<lparr>filters :=
               prev\<lparr>directFlightsOnly := (if hasDirectFlights then directFlightsOnly prev else False),
                    show2pc := (if hasVfr2pc then show2pc prev else False)\<rparr>,
             loading := False\<rparr>)"

text \<open>
  What happens to the page, one event at a time. Each event carries the number of the
  \<open>handleSearch\<close> call it belongs to; the callbacks do not look at it.
\<close>

datatype event =
    SearchStarted nat bool bool
  | VietJetResolved nat "Flight list"
  | VietJetRejected nat
  | VietnamAirlinesResolved nat "Flight list"
  | VietnamAirlinesRejected nat
  | AllSettled nat "settled list"

fun step :: "PageState \<Rightarrow> event \<Rightarrow> PageState" where
  "step st (SearchStarted n canCheckVJ canCheckVNA) = handleSearchStart canCheckVJ canCheckVNA st"
| "step st (VietJetResolved n vietJetFlights) = batchArrived vietJetFlights st"
| "step st (VietJetRejected n) = fetchFailed st"
| "step st (VietnamAirlinesResolved n vietnamAirlinesFlights) = batchArrived vietnamAirlinesFlights st"
| "step st (VietnamAirlinesRejected n) = fetchFailed st"
| "step st (AllSettled n results) = handleSearchSettled results st"

definition run :: "PageState \<Rightarrow> event list \<Rightarrow> PageState" where
  "run st es = foldl step st es"

fun searchOf :: "event \<Rightarrow> nat" where
  "searchOf (SearchStarted n _ _) = n"
| "searchOf (VietJetResolved n _) = n"
| "searchOf (VietJetRejected n) = n"
| "searchOf (VietnamAirlinesResolved n _) = n"
| "searchOf (VietnamAirlinesRejected n) = n"
| "searchOf (AllSettled n _) = n"

fun isSearchStarted :: "event \<Rightarrow> bool" where
  "isSearchStarted (SearchStarted _ _ _) = True"
| "isSearchStarted _ = False"

fun batchOf :: "event \<Rightarrow> Flight list" where
  "batchOf (VietJetResolved _ batch) = batch"
| "batchOf (VietnamAirlinesResolved _ batch) = batch"
| "batchOf _ = []"

subsection \<open>\<open>handleShowMore\<close> and the button\<close>

definition handleShowMore :: "FilterOptions \<Rightarrow> FilterOptions" where
  "handleShowMore prev =
     (if showCheapestOnly prev then prev\<lparr>showCheapestOnly := False\<rparr>
      else if directFlightsOnly prev then prev\<lparr>directFlightsOnly := False\<rparr>
      else prev\<lparr>show2pc := False\<rparr>)"

definition shouldShowMoreButton :: "FilterOptions \<Rightarrow> bool" where
  "shouldShowMoreButton cfg = (showCheapestOnly cfg \<or> directFlightsOnly cfg)"

text \<open>
  The render: \<open>filteredFlights\<close> is the pipeline on the current state, and the button is
  inside the block rendered when \<open>filteredFlights.length > 0\<close>.
\<close>

definition filteredFlights :: "PageState \<Rightarrow> Flight list" where
  "filteredFlights st = evaluate (filters st) (flights st)"

definition showMoreRendered :: "PageState \<Rightarrow> bool" where
  "showMoreRendered st = (length (filteredFlights st) > 0 \<and> shouldShowMoreButton (filters st))"

section \<open>Views of the pipeline used in the statements\<close>

text \<open>
  The content of \<open>filtered\<close> after the first three stages, before the cheapest-only
  reduction.
\<close>

definition preReduction :: "FilterOptions \<Rightarrow> Flight list \<Rightarrow> Flight list" where
  "preReduction cfg xs =
     (case airlineStage cfg 0 (storeOf xs) of
        (filtered1, s1) \<Rightarrow>
          (case directStage cfg filtered1 s1 of
             (filtered2, s2) \<Rightarrow>
               (case twoBagStage cfg filtered2 s2 of
                  (filtered3, s3) \<Rightarrow> arrays s3 filtered3)))"

text \<open>The three filter callbacks together, each counted only when its stage runs.\<close>

definition survives :: "FilterOptions \<Rightarrow> Flight \<Rightarrow> bool" where
  "survives cfg f =
     ((if length (airlines cfg) > 0 then airlineIncluded cfg f else True) \<and>
      (if directFlightsOnly cfg then isDirect f else True) \<and>
      (if show2pc cfg then is2pc f else True))"

text \<open>The value computed by the cheapest-only block from the content of \<open>filtered\<close>.\<close>

definition reduceCheapest :: "Flight list \<Rightarrow> Flight list" where
  "reduceCheapest ys =
     filterBoolean [cheapestOf (filter (\<lambda>f. airline f = ''VJ'') ys),
                    cheapestOf (filter (\<lambda>f. airline f = ''VNA'') ys)]"

text \<open>No stage replaces \<open>filtered\<close>: it is still the argument array when \<open>sort\<close> runs.\<close>

definition noStageRuns :: "FilterOptions \<Rightarrow> bool" where
  "noStageRuns cfg =
     (airlines cfg = [] \<and> \<not> directFlightsOnly cfg \<and> \<not> show2pc cfg \<and> \<not> showCheapestOnly cfg)"

fun isRejection :: "event \<Rightarrow> bool" where
  "isRejection (VietJetRejected _) = True"
| "isRejection (VietnamAirlinesRejected _) = True"
| "isRejection _ = False"

text \<open>Concrete flights and filter settings for the examples.\<close>

definition oneWay :: "string \<Rightarrow> string \<Rightarrow> int \<Rightarrow> string \<Rightarrow> Flight" where
  "oneWay i a p b =
     \<lparr>flightId = i, airline = a, price = p,
      departure = \<lparr>airport = ''SGN'', date = ''2025-01-01'', time = ''08:00'', stops = 0\<rparr>,
      returnLeg = None, duration = ''2h 05m'', baggageType = b\<rparr>"

definition roundTrip :: "string \<Rightarrow> string \<Rightarrow> int \<Rightarrow> string \<Rightarrow> nat \<Rightarrow> nat \<Rightarrow> Flight" where
  "roundTrip i a p b outStops backStops =
     \<lparr>flightId = i, airline = a, price = p,
      departure = \<lparr>airport = ''SGN'', date = ''2025-01-01'', time = ''08:00'', stops = outStops\<rparr>,
      returnLeg = Some \<lparr>airport = ''HAN'', date = ''2025-01-08'', time = ''19:30'', stops = backStops\<rparr>,
      duration = ''2h 05m'', baggageType = b\<rparr>"

definition defaultFilters :: FilterOptions where
  "defaultFilters =
     \<lparr>airlines = [''VJ'', ''VNA''], showCheapestOnly = True, directFlightsOnly = True,
      show2pc = True, sortBy = ''price''\<rparr>"

definition noFilters :: FilterOptions where
  "noFilters =
     \<lparr>airlines = [], showCheapestOnly = False, directFlightsOnly = False,
      show2pc = False, sortBy = ''price''\<rparr>"

section \<open>The pipeline as a function on contents\<close>

text \<open>
  Unfolding the stages on the one-array store gives the content of the returned array and
  of the argument array in closed form.
\<close>

lemmas store_defs = filterAndSortFlights_def airlineStage_def directStage_def twoBagStage_def
  cheapestStage_def arraySort_def arrayFilter_def newArray_def storeOf_def

lemma preReduction_eq: "preReduction cfg xs = filter (survives cfg) xs"
  by (auto simp: preReduction_def store_defs survives_def intro!: filter_cong)

lemma evaluate_eq:
  "evaluate cfg xs =
     sortWith (compareFlights (sortBy cfg))
       (if showCheapestOnly cfg then reduceCheapest (preReduction cfg xs) else preReduction cfg xs)"
  by (simp add: evaluate_def preReduction_def store_defs reduceCheapest_def Let_def)

lemma inputAfter_eq:
  "inputAfter cfg xs =
     (if noStageRuns cfg then sortWith (compareFlights (sortBy cfg)) xs else xs)"
  by (simp add: inputAfter_def store_defs Let_def noStageRuns_def)

lemma set_insertBy: "set (insertBy cmp x ys) = insert x (set ys)"
  by (induction ys) auto

lemma set_sortWith: "set (sortWith cmp xs) = set xs"
  by (induction xs) (simp_all add: sortWith_def set_insertBy)

lemma count_insertBy: "length (filter P (insertBy cmp x ys)) = length (filter P (x # ys))"
  by (induction ys) auto

lemma count_sortWith: "length (filter P (sortWith cmp xs)) = length (filter P xs)"
  by (induction xs) (simp_all add: sortWith_def count_insertBy)

lemma sortWith_Cons: "sortWith cmp (x # xs) = insertBy cmp x (sortWith cmp xs)"
  by (simp add: sortWith_def)

lemma sortWith_Nil: "sortWith cmp [] = []"
  by (simp add: sortWith_def)

lemma successively_insertBy:
  assumes tot: "\<And>a b. cmp a b \<le> 0 \<or> cmp b a \<le> 0"
    and "successively (\<lambda>a b. cmp a b \<le> 0) ys"
  shows "successively (\<lambda>a b. cmp a b \<le> 0) (insertBy cmp x ys)"
  using assms(2)
proof (induction ys)
  case Nil
  then show ?case by simp
next
  case (Cons y ys)
  show ?case
  proof (cases "cmp x y \<le> 0")
    case True
    with Cons.prems show ?thesis by simp
  next
    case False
    then have yx: "cmp y x \<le> 0" using tot[of x y] by simp
    from Cons have ih: "successively (\<lambda>a b. cmp a b \<le> 0) (insertBy cmp x ys)"
      by (cases ys) auto
    show ?thesis
    proof (cases ys)
      case Nil
      with False yx show ?thesis by simp
    next
      case (Cons z zs)
      with False yx ih Cons.prems show ?thesis by (auto simp: successively_Cons)
    qed
  qed
qed

lemma successively_sortWith:
  assumes "\<And>a b. cmp a b \<le> 0 \<or> cmp b a \<le> 0"
  shows "successively (\<lambda>a b. cmp a b \<le> 0) (sortWith cmp xs)"
  by (induction xs) (simp_all add: sortWith_Nil sortWith_Cons successively_insertBy[OF assms])

lemma sortWith_ordered:
  "successively (\<lambda>a b. cmp a b \<le> 0) xs \<Longrightarrow> sortWith cmp xs = xs"
proof (induction xs)
  case Nil
  then show ?case by (simp add: sortWith_Nil)
next
  case (Cons x xs)
  then have "sortWith cmp xs = xs" by (cases xs) auto
  with Cons.prems show ?case by (cases xs) (auto simp: sortWith_Cons)
qed

lemma localeCompare_total: "localeCompare a b \<le> 0 \<or> localeCompare b a \<le> 0"
  by (induction a b rule: localeCompare.induct) auto

lemma compareFlights_total: "compareFlights k a b \<le> 0 \<or> compareFlights k b a \<le> 0"
proof -
  have d: "(case (x, y) of (Some (u::int), Some v) \<Rightarrow> u - v | _ \<Rightarrow> 0) \<le> 0 \<or>
        (case (y, x) of (Some u, Some v) \<Rightarrow> u - v | _ \<Rightarrow> 0) \<le> 0" for x y :: "int option"
    by (cases x; cases y) auto
  have p: "price a - price b \<le> 0 \<or> price b - price a \<le> 0" by arith
  show ?thesis
    unfolding compareFlights_def
    using localeCompare_total[of "time (departure a)" "time (departure b)"]
      d[of "parseDigits (duration a)" "parseDigits (duration b)"] p
    by (simp only: split: if_splits) simp
qed

lemma sortWith_idem:
  "sortWith (compareFlights k) (sortWith (compareFlights k) xs) = sortWith (compareFlights k) xs"
  by (rule sortWith_ordered, rule successively_sortWith, rule compareFlights_total)

lemmas eval_defs = evaluate_eq preReduction_eq survives_def airlineIncluded_def isDirect_def
  is2pc_def reduceCheapest_def cheaper_def sortWith_def compareFlights_def oneWay_def
  roundTrip_def defaultFilters_def noFilters_def

section \<open>The cheapest-only reduction\<close>

lemma foldl_cheaper_split:
  "\<exists>ys zs. x # xs = ys @ foldl cheaper x xs # zs \<and>
     (\<forall>g\<in>set ys. price (foldl cheaper x xs) \<le> price g) \<and>
     (\<forall>g\<in>set zs. price (foldl cheaper x xs) < price g)"
proof (induction xs rule: rev_induct)
  case Nil
  have "[x] = [] @ x # [] \<and> (\<forall>g\<in>set ([]::Flight list). price x \<le> price g)
     \<and> (\<forall>g\<in>set ([]::Flight list). price x < price g)" by simp
  then show ?case unfolding foldl_Nil by blast
next
  case (snoc y xs)
  let ?m = "foldl cheaper x xs"
  from snoc obtain ys zs where s: "x # xs = ys @ ?m # zs"
    and lo: "\<forall>g\<in>set ys. price ?m \<le> price g" and hi: "\<forall>g\<in>set zs. price ?m < price g"
    by blast
  show ?case
  proof (cases "price ?m < price y")
    case True
    then have m: "foldl cheaper x (xs @ [y]) = ?m" by (simp add: cheaper_def)
    have "x # xs @ [y] = ys @ ?m # (zs @ [y])" using s by simp
    moreover have "\<forall>g\<in>set (zs @ [y]). price ?m < price g" using hi True by simp
    ultimately show ?thesis unfolding m using lo by blast
  next
    case False
    then have m: "foldl cheaper x (xs @ [y]) = y" by (simp add: cheaper_def)
    have all: "\<forall>g\<in>set (x # xs). price ?m \<le> price g"
      using lo hi unfolding s by auto
    have "x # xs @ [y] = (x # xs) @ y # []" by simp
    moreover have "\<forall>g\<in>set (x # xs). price y \<le> price g" using all False by auto
    moreover have "\<forall>g\<in>set ([]::Flight list). price y < price g" by simp
    ultimately show ?thesis unfolding m by blast
  qed
qed

lemma cheapestOf_split:
  assumes "cheapestOf ys = Some m"
  shows "\<exists>us vs. ys = us @ m # vs \<and> (\<forall>g\<in>set us. price m \<le> price g) \<and>
           (\<forall>g\<in>set vs. price m < price g)"
proof (cases ys)
  case Nil
  with assms show ?thesis by simp
next
  case (Cons x xs)
  with assms have "m = foldl cheaper x xs" by simp
  with foldl_cheaper_split[of x xs] Cons show ?thesis by simp
qed

lemma cheapestOf_mem: "cheapestOf ys = Some m \<Longrightarrow> m \<in> set ys"
  using cheapestOf_split by fastforce

lemma cheapestOf_None: "cheapestOf ys = None \<longleftrightarrow> ys = []"
  by (cases ys) simp_all

lemma filter_split:
  "filter P xs = us @ m # vs \<Longrightarrow>
     \<exists>ys zs. xs = ys @ m # zs \<and> filter P ys = us \<and> filter P zs = vs \<and> P m"
proof (induction xs arbitrary: us)
  case Nil
  then show ?case by simp
next
  case (Cons x xs)
  show ?case
  proof (cases "P x")
    case False
    with Cons.prems have "filter P xs = us @ m # vs" by simp
    from Cons.IH[OF this] obtain ys zs where
      "xs = ys @ m # zs" "filter P ys = us" "filter P zs = vs" "P m" by blast
    then have "x # xs = (x # ys) @ m # zs \<and> filter P (x # ys) = us \<and> filter P zs = vs \<and> P m"
      using False by simp
    then show ?thesis by blast
  next
    case True
    show ?thesis
    proof (cases us)
      case Nil
      with Cons.prems True have "x = m" "filter P xs = vs" by simp_all
      then have "x # xs = [] @ m # xs \<and> filter P [] = us \<and> filter P xs = vs \<and> P m"
        using Nil True by simp
      then show ?thesis by blast
    next
      case (Cons u us')
      with Cons.prems True have xu: "x = u" and "filter P xs = us' @ m # vs" by simp_all
      from Cons.IH[OF this(2)] obtain ys zs where
        "xs = ys @ m # zs" "filter P ys = us'" "filter P zs = vs" "P m" by blast
      then have "x # xs = (x # ys) @ m # zs \<and> filter P (x # ys) = us \<and> filter P zs = vs \<and> P m"
        using True xu Cons by simp
      then show ?thesis by blast
    qed
  qed
qed

lemma cheapest_in_filter_split:
  assumes "cheapestOf (filter (\<lambda>f. airline f = a) pre) = Some m"
  shows "airline m = a \<and> (\<exists>ys zs. pre = ys @ m # zs \<and>
           (\<forall>g\<in>set ys. airline g = airline m \<longrightarrow> price m \<le> price g) \<and>
           (\<forall>g\<in>set zs. airline g = airline m \<longrightarrow> price m < price g))"
proof -
  from cheapestOf_split[OF assms] obtain us vs where
    f: "filter (\<lambda>f. airline f = a) pre = us @ m # vs"
    and lo: "\<forall>g\<in>set us. price m \<le> price g" and hi: "\<forall>g\<in>set vs. price m < price g"
    by blast
  from filter_split[OF f] obtain ys zs where p: "pre = ys @ m # zs"
    and fu: "filter (\<lambda>f. airline f = a) ys = us"
    and fv: "filter (\<lambda>f. airline f = a) zs = vs" and am: "airline m = a"
    by blast
  have "\<forall>g\<in>set ys. airline g = airline m \<longrightarrow> price m \<le> price g"
    using lo fu am by auto
  moreover have "\<forall>g\<in>set zs. airline g = airline m \<longrightarrow> price m < price g"
    using hi fv am by auto
  ultimately show ?thesis using am p by blast
qed

lemma VJ_neq_VNA: "''VJ'' \<noteq> ''VNA''"
  by simp

lemma reduceCheapest_mem:
  assumes "f \<in> set (reduceCheapest pre)"
  shows "cheapestOf (filter (\<lambda>g. airline g = airline f) pre) = Some f \<and>
     (airline f = ''VJ'' \<or> airline f = ''VNA'')"
proof -
  let ?v = "cheapestOf (filter (\<lambda>g. airline g = ''VJ'') pre)"
  let ?w = "cheapestOf (filter (\<lambda>g. airline g = ''VNA'') pre)"
  from assms have "?v = Some f \<or> ?w = Some f"
    by (cases ?v; cases ?w) (auto simp: reduceCheapest_def)
  then show ?thesis
  proof
    assume v: "?v = Some f"
    then have "airline f = ''VJ''" using cheapest_in_filter_split by blast
    with v show ?thesis by simp
  next
    assume w: "?w = Some f"
    then have "airline f = ''VNA''" using cheapest_in_filter_split by blast
    with w show ?thesis by simp
  qed
qed

lemma reduceCheapest_subset: "set (reduceCheapest pre) \<subseteq> set pre"
proof
  fix f assume "f \<in> set (reduceCheapest pre)"
  from reduceCheapest_mem[OF this] have "f \<in> set (filter (\<lambda>g. airline g = airline f) pre)"
    using cheapestOf_mem by blast
  then show "f \<in> set pre" by simp
qed

lemma reduceCheapest_count:
  "length (filter (\<lambda>f. airline f = a) (reduceCheapest pre)) \<le> 1"
proof -
  let ?v = "cheapestOf (filter (\<lambda>g. airline g = ''VJ'') pre)"
  let ?w = "cheapestOf (filter (\<lambda>g. airline g = ''VNA'') pre)"
  have av: "airline v = ''VJ''" if "?v = Some v" for v
    using that cheapest_in_filter_split by blast
  have aw: "airline w = ''VNA''" if "?w = Some w" for w
    using that cheapest_in_filter_split by blast
  show ?thesis
  proof (cases ?v)
    case None
    then show ?thesis by (cases ?w) (simp_all add: reduceCheapest_def)
  next
    case (Some v)
    show ?thesis
    proof (cases ?w)
      case None
      with Some show ?thesis by (simp add: reduceCheapest_def)
    next
      case (Some w)
      have "reduceCheapest pre = [v, w]" using \<open>?v = Some v\<close> Some by (simp add: reduceCheapest_def)
      moreover have "airline v \<noteq> airline w" using av[OF \<open>?v = Some v\<close>] aw[OF Some] by simp
      ultimately show ?thesis by auto
    qed
  qed
qed

lemma preReduction_idem_on_subset:
  assumes "set ys \<subseteq> set (preReduction cfg xs)"
  shows "preReduction cfg ys = ys"
proof -
  have "\<forall>f\<in>set ys. survives cfg f" using assms by (auto simp: preReduction_eq)
  then show ?thesis by (simp add: preReduction_eq)
qed

lemma sortWith_const: "sortWith (\<lambda>a b. 0) xs = xs"
  by (rule sortWith_ordered) (induction xs rule: induct_list012, simp_all)

lemma reduceCheapest_resort:
  "reduceCheapest (sortWith cmp (reduceCheapest pre)) = reduceCheapest pre"
proof -
  let ?v = "cheapestOf (filter (\<lambda>g. airline g = ''VJ'') pre)"
  let ?w = "cheapestOf (filter (\<lambda>g. airline g = ''VNA'') pre)"
  have av: "airline v = ''VJ''" if "?v = Some v" for v
    using that cheapest_in_filter_split by blast
  have aw: "airline w = ''VNA''" if "?w = Some w" for w
    using that cheapest_in_filter_split by blast
  show ?thesis
  proof (cases ?v)
    case None
    show ?thesis
    proof (cases ?w)
      case None
      with \<open>?v = None\<close> show ?thesis by (simp add: reduceCheapest_def sortWith_def)
    next
      case (Some w)
      with None aw[OF Some] show ?thesis by (simp add: reduceCheapest_def sortWith_def)
    qed
  next
    case (Some v)
    show ?thesis
    proof (cases ?w)
      case None
      with Some av[OF Some] show ?thesis by (simp add: reduceCheapest_def sortWith_def)
    next
      case w: (Some w)
      have r: "reduceCheapest pre = [v, w]" using Some w by (simp add: reduceCheapest_def)
      have "sortWith cmp [v, w] = [v, w] \<or> sortWith cmp [v, w] = [w, v]"
        by (simp add: sortWith_def)
      then show ?thesis
      proof
        assume "sortWith cmp [v, w] = [v, w]"
        then show ?thesis unfolding r using av[OF Some] aw[OF w]
          by (simp add: reduceCheapest_def)
      next
        assume "sortWith cmp [v, w] = [w, v]"
        then show ?thesis unfolding r using av[OF Some] aw[OF w]
          by (simp add: reduceCheapest_def)
      qed
    qed
  qed
qed

lemma foldl_cheaper_above:
  "\<forall>g\<in>set vs. price m < price g \<Longrightarrow> foldl cheaper m vs = m"
  by (induction vs) (simp_all add: cheaper_def)

lemma cheapestOf_at_split:
  assumes lo: "\<forall>g\<in>set us. price m \<le> price g" and hi: "\<forall>g\<in>set vs. price m < price g"
  shows "cheapestOf (us @ m # vs) = Some m"
proof (cases us)
  case Nil
  then show ?thesis by (simp add: foldl_cheaper_above[OF hi])
next
  case (Cons x us')
  let ?p = "foldl cheaper x us'"
  have "cheapestOf (x # us') = Some ?p" by simp
  then have "?p \<in> set us" unfolding Cons by (rule cheapestOf_mem)
  then have "price m \<le> price ?p" using lo by blast
  then have "cheaper ?p m = m" by (simp add: cheaper_def)
  then show ?thesis unfolding Cons by (simp add: foldl_cheaper_above[OF hi])
qed

lemma cheapest_in_filter_at_split:
  assumes "pre = ys @ f # zs"
    and lo: "\<forall>g\<in>set ys. airline g = airline f \<longrightarrow> price f \<le> price g"
    and hi: "\<forall>g\<in>set zs. airline g = airline f \<longrightarrow> price f < price g"
  shows "cheapestOf (filter (\<lambda>g. airline g = airline f) pre) = Some f"
proof -
  let ?P = "\<lambda>g. airline g = airline f"
  have "filter ?P pre = filter ?P ys @ f # filter ?P zs"
    unfolding assms(1) by simp
  moreover have "\<forall>g\<in>set (filter ?P ys). price f \<le> price g" using lo by simp
  moreover have "\<forall>g\<in>set (filter ?P zs). price f < price g" using hi by simp
  ultimately show ?thesis by (simp only: cheapestOf_at_split)
qed

lemma reduceCheapest_member:
  assumes "airline f = ''VJ'' \<or> airline f = ''VNA''"
    and "cheapestOf (filter (\<lambda>g. airline g = airline f) pre) = Some f"
  shows "f \<in> set (reduceCheapest pre)"
  using assms(1)
proof
  assume a: "airline f = ''VJ''"
  with assms(2) have "cheapestOf (filter (\<lambda>g. airline g = ''VJ'') pre) = Some f" by simp
  then show ?thesis
    by (cases "cheapestOf (filter (\<lambda>g. airline g = ''VNA'') pre)") (simp_all add: reduceCheapest_def)
next
  assume a: "airline f = ''VNA''"
  with assms(2) have "cheapestOf (filter (\<lambda>g. airline g = ''VNA'') pre) = Some f" by simp
  then show ?thesis
    by (cases "cheapestOf (filter (\<lambda>g. airline g = ''VJ'') pre)") (simp_all add: reduceCheapest_def)
qed

lemma cheapest_exists:
  assumes "g \<in> set pre" and "airline g = a"
  shows "\<exists>m. cheapestOf (filter (\<lambda>f. airline f = a) pre) = Some m \<and> airline m = a"
proof -
  have "filter (\<lambda>f. airline f = a) pre \<noteq> []"
    using assms by (auto simp: filter_empty_conv)
  then obtain m where m: "cheapestOf (filter (\<lambda>f. airline f = a) pre) = Some m"
    by (cases "filter (\<lambda>f. airline f = a) pre") auto
  with cheapest_in_filter_split[OF m] show ?thesis by blast
qed

lemma cheapest_is_least:
  assumes "cheapestOf (filter (\<lambda>f. airline f = a) pre) = Some m"
    and "g \<in> set pre" and "airline g = a"
  shows "price m \<le> price g"
proof -
  from cheapest_in_filter_split[OF assms(1)] obtain ys zs where
    am: "airline m = a" and p: "pre = ys @ m # zs"
    and lo: "\<forall>g\<in>set ys. airline g = airline m \<longrightarrow> price m \<le> price g"
    and hi: "\<forall>g\<in>set zs. airline g = airline m \<longrightarrow> price m < price g"
    by blast
  from assms(2) have "g \<in> set ys \<or> g = m \<or> g \<in> set zs" unfolding p by auto
  then show ?thesis using lo hi am assms(3) by fastforce
qed

lemma equal_price_pair_order:
  assumes "showCheapestOnly cfg" and "sortBy cfg = ''price''"
    and v: "cheapestOf (filter (\<lambda>f. airline f = ''VJ'') (preReduction cfg xs)) = Some v"
    and w: "cheapestOf (filter (\<lambda>f. airline f = ''VNA'') (preReduction cfg xs)) = Some w"
    and "price v = price w"
  shows "evaluate cfg xs = [v, w]"
proof -
  have "reduceCheapest (preReduction cfg xs) = [v, w]"
    using v w by (simp add: reduceCheapest_def)
  then have "evaluate cfg xs = sortWith (compareFlights ''price'') [v, w]"
    using assms(1,2) by (simp add: evaluate_eq)
  also have "\<dots> = [v, w]"
    using assms(5) by (simp add: sortWith_def compareFlights_def)
  finally show ?thesis .
qed

section \<open>Properties of \<open>filterAndSortFlights\<close>\<close>

text \<open>
  Claim C1, as the code has it. With \<open>showCheapestOnly\<close> set, the output holds at most one
  flight of any airline. A flight is in the output exactly when it is a VietJet or Vietnam
  Airlines flight that occurs, in the content that reaches the reduction, at a place where
  every flight of its airline before it costs at least as much and every flight of its
  airline after it costs strictly more: the flight of least price of its airline and,
  among the flights of that price, the last one in input order, is kept, and nothing else
  is. Each of the two airlines with a flight reaching the reduction has a flight in the
  output, priced no higher.
\<close>

theorem cheapest_only_keeps_last_minimum:
  assumes "showCheapestOnly cfg"
  shows "(\<forall>a. length (filter (\<lambda>f. airline f = a) (evaluate cfg xs)) \<le> 1) \<and>
         (\<forall>f. f \<in> set (evaluate cfg xs) \<longleftrightarrow>
             (airline f = ''VJ'' \<or> airline f = ''VNA'') \<and>
             (\<exists>ys zs. preReduction cfg xs = ys @ f # zs \<and>
               (\<forall>g\<in>set ys. airline g = airline f \<longrightarrow> price f \<le> price g) \<and>
               (\<forall>g\<in>set zs. airline g = airline f \<longrightarrow> price f < price g))) \<and>
         (\<forall>g\<in>set (preReduction cfg xs). airline g = ''VJ'' \<or> airline g = ''VNA'' \<longrightarrow>
             (\<exists>f\<in>set (evaluate cfg xs). airline f = airline g \<and> price f \<le> price g))"
proof -
  let ?pre = "preReduction cfg xs"
  have e: "evaluate cfg xs = sortWith (compareFlights (sortBy cfg)) (reduceCheapest ?pre)"
    using assms by (simp add: evaluate_eq)
  have s: "set (evaluate cfg xs) = set (reduceCheapest ?pre)"
    unfolding e by (rule set_sortWith)
  have one: "\<forall>a. length (filter (\<lambda>f. airline f = a) (evaluate cfg xs)) \<le> 1"
    unfolding e count_sortWith using reduceCheapest_count by blast
  have fwd: "(airline f = ''VJ'' \<or> airline f = ''VNA'') \<and>
             (\<exists>ys zs. ?pre = ys @ f # zs \<and>
               (\<forall>g\<in>set ys. airline g = airline f \<longrightarrow> price f \<le> price g) \<and>
               (\<forall>g\<in>set zs. airline g = airline f \<longrightarrow> price f < price g))"
    if "f \<in> set (evaluate cfg xs)" for f
  proof -
    from that have "f \<in> set (reduceCheapest ?pre)" unfolding s .
    from reduceCheapest_mem[OF this]
    have c: "cheapestOf (filter (\<lambda>g. airline g = airline f) ?pre) = Some f"
      and a: "airline f = ''VJ'' \<or> airline f = ''VNA''" by simp_all
    from cheapest_in_filter_split[OF c] a show ?thesis by simp
  qed
  have bwd: "f \<in> set (evaluate cfg xs)"
    if a: "airline f = ''VJ'' \<or> airline f = ''VNA''"
      and sp: "\<exists>ys zs. ?pre = ys @ f # zs \<and>
               (\<forall>g\<in>set ys. airline g = airline f \<longrightarrow> price f \<le> price g) \<and>
               (\<forall>g\<in>set zs. airline g = airline f \<longrightarrow> price f < price g)" for f
  proof -
    from sp obtain ys zs where "?pre = ys @ f # zs"
      "\<forall>g\<in>set ys. airline g = airline f \<longrightarrow> price f \<le> price g"
      "\<forall>g\<in>set zs. airline g = airline f \<longrightarrow> price f < price g" by blast
    then have "cheapestOf (filter (\<lambda>g. airline g = airline f) ?pre) = Some f"
      by (rule cheapest_in_filter_at_split)
    with a show ?thesis unfolding s by (rule reduceCheapest_member)
  qed
  have ex: "\<exists>f\<in>set (evaluate cfg xs). airline f = airline g \<and> price f \<le> price g"
    if g: "g \<in> set ?pre" and a: "airline g = ''VJ'' \<or> airline g = ''VNA''" for g
  proof -
    from cheapest_exists[OF g refl] obtain m where
      m: "cheapestOf (filter (\<lambda>f. airline f = airline g) ?pre) = Some m"
      and am: "airline m = airline g" by blast
    have "price m \<le> price g" using cheapest_is_least[OF m g refl] .
    moreover have "m \<in> set (evaluate cfg xs)"
      unfolding s using a m am by (intro reduceCheapest_member) simp_all
    ultimately show ?thesis using am by blast
  qed
  have iff: "\<forall>f. f \<in> set (evaluate cfg xs) \<longleftrightarrow>
             (airline f = ''VJ'' \<or> airline f = ''VNA'') \<and>
             (\<exists>ys zs. ?pre = ys @ f # zs \<and>
               (\<forall>g\<in>set ys. airline g = airline f \<longrightarrow> price f \<le> price g) \<and>
               (\<forall>g\<in>set zs. airline g = airline f \<longrightarrow> price f < price g))"
    using fwd bwd by blast
  have exa: "\<forall>g\<in>set ?pre. airline g = ''VJ'' \<or> airline g = ''VNA'' \<longrightarrow>
             (\<exists>f\<in>set (evaluate cfg xs). airline f = airline g \<and> price f \<le> price g)"
    using ex by blast
  from one iff exa show ?thesis by (intro conjI)
qed

text \<open>
  The theorem at three flights, two VietJet flights of equal price among them: the second
  of the two is in the output and the first is not.
\<close>

theorem cheapest_only_keeps_last_minimum_witness:
  "showCheapestOnly defaultFilters \<and>
   length (filter (\<lambda>f. airline f = ''VJ'')
     (evaluate defaultFilters [oneWay ''a'' ''VJ'' 100 ''ECO'', oneWay ''b'' ''VJ'' 100 ''ECO'',
        oneWay ''c'' ''VNA'' 90 ''VFR''])) \<le> 1 \<and>
   oneWay ''b'' ''VJ'' 100 ''ECO'' \<in> set (evaluate defaultFilters
       [oneWay ''a'' ''VJ'' 100 ''ECO'', oneWay ''b'' ''VJ'' 100 ''ECO'', oneWay ''c'' ''VNA'' 90 ''VFR'']) \<and>
   oneWay ''a'' ''VJ'' 100 ''ECO'' \<notin> set (evaluate defaultFilters
       [oneWay ''a'' ''VJ'' 100 ''ECO'', oneWay ''b'' ''VJ'' 100 ''ECO'', oneWay ''c'' ''VNA'' 90 ''VFR''])"
proof -
  let ?a = "oneWay ''a'' ''VJ'' 100 ''ECO''"
  let ?b = "oneWay ''b'' ''VJ'' 100 ''ECO''"
  let ?c = "oneWay ''c'' ''VNA'' 90 ''VFR''"
  let ?xs = "[?a, ?b, ?c]"
  have h: "showCheapestOnly defaultFilters" by (simp add: defaultFilters_def)
  note t = cheapest_only_keeps_last_minimum[OF h, of ?xs]
  have p: "preReduction defaultFilters ?xs = ?xs"
    by (simp add: preReduction_eq survives_def airlineIncluded_def isDirect_def
        is2pc_def oneWay_def defaultFilters_def)
  from t have one: "length (filter (\<lambda>f. airline f = ''VJ'') (evaluate defaultFilters ?xs)) \<le> 1"
    by blast
  have sp: "preReduction defaultFilters ?xs = [?a] @ ?b # [?c] \<and>
       (\<forall>g\<in>set [?a]. airline g = airline ?b \<longrightarrow> price ?b \<le> price g) \<and>
       (\<forall>g\<in>set [?c]. airline g = airline ?b \<longrightarrow> price ?b < price g)"
    unfolding p by (simp add: oneWay_def)
  have ab: "airline ?b = ''VJ'' \<or> airline ?b = ''VNA''" by (simp add: oneWay_def)
  from t ab sp have inb: "?b \<in> set (evaluate defaultFilters ?xs)" by blast
  have ne: "?a \<noteq> ?b" by (simp add: oneWay_def)
  have "?a \<notin> set (evaluate defaultFilters ?xs)"
    by (simp add: eval_defs)
  with h one inb show ?thesis by blast
qed

text \<open>
  Two VietJet flights of the same price: the reduction keeps the second, not the first.
\<close>

theorem first_of_equal_prices_counterexample:
  "evaluate defaultFilters [oneWay ''a'' ''VJ'' 100 ''ECO'', oneWay ''b'' ''VJ'' 100 ''ECO'']
     = [oneWay ''b'' ''VJ'' 100 ''ECO''] \<and>
   oneWay ''a'' ''VJ'' 100 ''ECO'' \<noteq> oneWay ''b'' ''VJ'' 100 ''ECO''"
  by (simp add: eval_defs)

text \<open>
  Claim C2. When \<open>show2pc\<close> is set, the two-bag stage returns a new array holding, in
  order, exactly the flights of its input whose airline is VJ, or whose airline is VNA and
  whose baggage type is VFR.
\<close>

theorem two_bag_stage_retains:
  assumes "show2pc cfg" and "twoBagStage cfg filtered s = (filtered', s')"
  shows "arrays s' filtered' =
           filter (\<lambda>f. airline f = ''VJ'' \<or> (airline f = ''VNA'' \<and> baggageType f = ''VFR''))
             (arrays s filtered) \<and>
         (\<forall>f. f \<in> set (arrays s' filtered') \<longleftrightarrow>
            f \<in> set (arrays s filtered) \<and>
            (airline f = ''VJ'' \<or> (airline f = ''VNA'' \<and> baggageType f = ''VFR'')))"
proof -
  have "arrays s' filtered' = filter is2pc (arrays s filtered)"
    using assms by (auto simp: twoBagStage_def arrayFilter_def newArray_def)
  then show ?thesis by (simp add: is2pc_def[abs_def])
qed

text \<open>The stage on a VietJet flight and two Vietnam Airlines flights, one of them VFR.\<close>

theorem two_bag_stage_retains_witness:
  "show2pc defaultFilters \<and>
   twoBagStage defaultFilters 0
     (storeOf [oneWay ''j'' ''VJ'' 100 ''ECO'', oneWay ''e'' ''VNA'' 80 ''ECO'',
               oneWay ''n'' ''VNA'' 90 ''VFR''])
   = (1, \<lparr>arrays = (\<lambda>_. [])(0 := [oneWay ''j'' ''VJ'' 100 ''ECO'', oneWay ''e'' ''VNA'' 80 ''ECO'',
               oneWay ''n'' ''VNA'' 90 ''VFR''],
               1 := [oneWay ''j'' ''VJ'' 100 ''ECO'', oneWay ''n'' ''VNA'' 90 ''VFR'']), fresh = 2\<rparr>)"
proof -
  let ?xs = "[oneWay ''j'' ''VJ'' 100 ''ECO'', oneWay ''e'' ''VNA'' 80 ''ECO'',
               oneWay ''n'' ''VNA'' 90 ''VFR'']"
  obtain r s where rs: "twoBagStage defaultFilters 0 (storeOf ?xs) = (r, s)"
    by (cases "twoBagStage defaultFilters 0 (storeOf ?xs)")
  have h: "show2pc defaultFilters" by (simp add: defaultFilters_def)
  from two_bag_stage_retains[OF h rs]
  have c: "arrays s r = [oneWay ''j'' ''VJ'' 100 ''ECO'', oneWay ''n'' ''VNA'' 90 ''VFR'']"
    by (simp add: storeOf_def oneWay_def)
  from rs have "r = 1" and "s = \<lparr>arrays = ((\<lambda>_. [])(0 := ?xs))(1 := arrays s r), fresh = 2\<rparr>"
    by (auto simp: twoBagStage_def arrayFilter_def newArray_def storeOf_def defaultFilters_def)
  with c rs h show ?thesis by simp
qed

text \<open>
  Claim C7. The pipeline is idempotent: run on its own output with the same filters, it
  returns that output.
\<close>

theorem evaluate_idempotent: "evaluate cfg (evaluate cfg xs) = evaluate cfg xs"
proof (cases "showCheapestOnly cfg")
  case True
  let ?c = "compareFlights (sortBy cfg)"
  let ?pre = "preReduction cfg xs"
  have e: "evaluate cfg xs = sortWith ?c (reduceCheapest ?pre)"
    using True by (simp add: evaluate_eq)
  have "set (evaluate cfg xs) \<subseteq> set ?pre"
    unfolding e set_sortWith by (rule reduceCheapest_subset)
  then have p: "preReduction cfg (evaluate cfg xs) = evaluate cfg xs"
    by (rule preReduction_idem_on_subset)
  have "evaluate cfg (evaluate cfg xs) = sortWith ?c (reduceCheapest (evaluate cfg xs))"
    using True p by (simp add: evaluate_eq[of cfg "evaluate cfg xs"])
  also have "\<dots> = sortWith ?c (reduceCheapest ?pre)"
    unfolding e by (simp only: reduceCheapest_resort)
  finally show ?thesis using e by simp
next
  case False
  let ?c = "compareFlights (sortBy cfg)"
  let ?pre = "preReduction cfg xs"
  have e: "evaluate cfg xs = sortWith ?c ?pre"
    using False by (simp add: evaluate_eq)
  have "set (evaluate cfg xs) \<subseteq> set ?pre"
    unfolding e set_sortWith by simp
  then have p: "preReduction cfg (evaluate cfg xs) = evaluate cfg xs"
    by (rule preReduction_idem_on_subset)
  have "evaluate cfg (evaluate cfg xs) = sortWith ?c (evaluate cfg xs)"
    using False p by (simp add: evaluate_eq[of cfg "evaluate cfg xs"])
  also have "\<dots> = sortWith ?c ?pre"
    unfolding e by (rule sortWith_idem)
  finally show ?thesis using e by simp
qed

text \<open>
  Claim C8 asks that the argument array be left as it was. When no stage runs (no airline
  selected, all three switches off), \<open>filtered\<close> is still the argument array and \<open>sort\<close>
  reorders it in place; in every other case a stage has replaced \<open>filtered\<close> by a new
  array (lemma \<open>inputAfter_eq\<close>). The call below leaves the argument array reordered.
\<close>

theorem sort_mutates_input_example:
  "inputAfter noFilters [oneWay ''a'' ''VJ'' 200 ''ECO'', oneWay ''b'' ''VJ'' 100 ''ECO'']
     = [oneWay ''b'' ''VJ'' 100 ''ECO'', oneWay ''a'' ''VJ'' 200 ''ECO''] \<and>
   inputAfter noFilters [oneWay ''a'' ''VJ'' 200 ''ECO'', oneWay ''b'' ''VJ'' 100 ''ECO'']
     \<noteq> [oneWay ''a'' ''VJ'' 200 ''ECO'', oneWay ''b'' ''VJ'' 100 ''ECO'']"
  by (simp add: inputAfter_eq noStageRuns_def sortWith_def compareFlights_def oneWay_def noFilters_def)

text \<open>
  Claim C9, as the code has it. A \<open>sortBy\<close> value other than \<open>price\<close>, \<open>duration\<close> and
  \<open>departure\<close> makes the comparator return \<open>0\<close> for every pair: the call returns the
  flights in the order the filter and reduction stages left them.
\<close>

theorem unrecognized_sort_key_keeps_order:
  assumes "sortBy cfg \<notin> {''price'', ''duration'', ''departure''}"
  shows "evaluate cfg xs =
     (if showCheapestOnly cfg then reduceCheapest (preReduction cfg xs) else preReduction cfg xs)"
proof -
  have "compareFlights (sortBy cfg) = (\<lambda>a b. 0)"
    using assms by (auto simp: compareFlights_def fun_eq_iff)
  then show ?thesis by (simp add: evaluate_eq sortWith_const)
qed

text \<open>The theorem at the key \<open>departureTime\<close>, which the comparator does not know.\<close>

theorem unrecognized_sort_key_keeps_order_witness:
  "sortBy (defaultFilters\<lparr>sortBy := ''departureTime''\<rparr>) \<notin> {''price'', ''duration'', ''departure''} \<and>
   evaluate (defaultFilters\<lparr>sortBy := ''departureTime''\<rparr>)
     [oneWay ''n'' ''VNA'' 90 ''VFR'', oneWay ''j'' ''VJ'' 100 ''ECO'']
   = [oneWay ''j'' ''VJ'' 100 ''ECO'', oneWay ''n'' ''VNA'' 90 ''VFR'']"
proof -
  have h: "sortBy (defaultFilters\<lparr>sortBy := ''departureTime''\<rparr>) \<notin> {''price'', ''duration'', ''departure''}"
    by simp
  show ?thesis
    using h unrecognized_sort_key_keeps_order[OF h,
        of "[oneWay ''n'' ''VNA'' 90 ''VFR'', oneWay ''j'' ''VJ'' 100 ''ECO'']"]
    by (simp add: preReduction_eq survives_def airlineIncluded_def isDirect_def
        is2pc_def reduceCheapest_def cheaper_def oneWay_def defaultFilters_def)
qed

text \<open>
  With an unknown key the call returns, and the dearer flight stays in front of the cheaper
  one.
\<close>

theorem unknown_sort_key_counterexample:
  "evaluate (noFilters\<lparr>sortBy := ''airline''\<rparr>)
     [oneWay ''a'' ''VJ'' 200 ''ECO'', oneWay ''b'' ''VJ'' 100 ''ECO'']
   = [oneWay ''a'' ''VJ'' 200 ''ECO'', oneWay ''b'' ''VJ'' 100 ''ECO'']"
  by (simp add: eval_defs)

text \<open>
  Claim C10, as the code has it. With \<open>showCheapestOnly\<close> set and \<open>sortBy = price\<close>, when
  a VietJet flight of least price and a Vietnam Airlines flight of least price, among the
  flights that pass the airline, direct and two-bag filters, cost the same, the output is
  one VietJet flight followed by one Vietnam Airlines flight, both of that price and both
  from the filtered flights, whatever the order of the input.
\<close>

theorem equal_price_VJ_first:
  assumes c: "showCheapestOnly cfg" and k: "sortBy cfg = ''price''"
    and v: "v \<in> set (preReduction cfg xs)" and av: "airline v = ''VJ''"
    and mv: "\<forall>g\<in>set (preReduction cfg xs). airline g = ''VJ'' \<longrightarrow> price v \<le> price g"
    and w: "w \<in> set (preReduction cfg xs)" and aw: "airline w = ''VNA''"
    and mw: "\<forall>g\<in>set (preReduction cfg xs). airline g = ''VNA'' \<longrightarrow> price w \<le> price g"
    and eq: "price v = price w"
  shows "map airline (evaluate cfg xs) = [''VJ'', ''VNA''] \<and>
         map price (evaluate cfg xs) = [price v, price w] \<and>
         set (evaluate cfg xs) \<subseteq> set (preReduction cfg xs)"
proof -
  let ?pre = "preReduction cfg xs"
  from cheapest_exists[OF v av] obtain v' where
    cv: "cheapestOf (filter (\<lambda>f. airline f = ''VJ'') ?pre) = Some v'" and av': "airline v' = ''VJ''"
    by blast
  from cheapest_exists[OF w aw] obtain w' where
    cw: "cheapestOf (filter (\<lambda>f. airline f = ''VNA'') ?pre) = Some w'" and aw': "airline w' = ''VNA''"
    by blast
  have v'in: "v' \<in> set ?pre" using cheapestOf_mem[OF cv] by simp
  have w'in: "w' \<in> set ?pre" using cheapestOf_mem[OF cw] by simp
  have pv: "price v' = price v"
    using cheapest_is_least[OF cv v av] mv v'in av' by fastforce
  have pw: "price w' = price w"
    using cheapest_is_least[OF cw w aw] mw w'in aw' by fastforce
  have "price v' = price w'" using pv pw eq by simp
  from equal_price_pair_order[OF c k cv cw this] have "evaluate cfg xs = [v', w']" .
  then show ?thesis using av' aw' pv pw v'in w'in by simp
qed

text \<open>
  The theorem at an input that lists the Vietnam Airlines flight first and a dearer VietJet
  flight before the cheapest one.
\<close>

theorem equal_price_VJ_first_witness:
  "map airline (evaluate defaultFilters
      [oneWay ''n'' ''VNA'' 100 ''VFR'', oneWay ''a'' ''VJ'' 200 ''ECO'', oneWay ''b'' ''VJ'' 100 ''ECO''])
     = [''VJ'', ''VNA''] \<and>
   map price (evaluate defaultFilters
      [oneWay ''n'' ''VNA'' 100 ''VFR'', oneWay ''a'' ''VJ'' 200 ''ECO'', oneWay ''b'' ''VJ'' 100 ''ECO''])
     = [100, 100]"
proof -
  let ?xs = "[oneWay ''n'' ''VNA'' 100 ''VFR'', oneWay ''a'' ''VJ'' 200 ''ECO'', oneWay ''b'' ''VJ'' 100 ''ECO'']"
  have p: "preReduction defaultFilters ?xs = ?xs"
    by (simp add: preReduction_eq survives_def airlineIncluded_def isDirect_def
        is2pc_def oneWay_def defaultFilters_def)
  have "map airline (evaluate defaultFilters ?xs) = [''VJ'', ''VNA''] \<and>
        map price (evaluate defaultFilters ?xs)
          = [price (oneWay ''b'' ''VJ'' 100 ''ECO''), price (oneWay ''n'' ''VNA'' 100 ''VFR'')] \<and>
        set (evaluate defaultFilters ?xs) \<subseteq> set (preReduction defaultFilters ?xs)"
    by (rule equal_price_VJ_first) (simp_all add: p, simp_all add: oneWay_def defaultFilters_def)
  then show ?thesis by (simp add: oneWay_def)
qed

text \<open>
  The minima of the input sequence itself do not decide the order. The cheapest VietJet
  flight below costs as much as the cheapest Vietnam Airlines flight, but it has a stop on
  its return leg and is filtered out; the VietJet flight left is dearer and comes second.
\<close>

theorem input_minima_counterexample:
  "price (roundTrip ''r'' ''VJ'' 50 ''ECO'' 0 1) = price (oneWay ''n'' ''VNA'' 50 ''VFR'') \<and>
   price (roundTrip ''r'' ''VJ'' 50 ''ECO'' 0 1) < price (oneWay ''j'' ''VJ'' 100 ''ECO'') \<and>
   evaluate defaultFilters
     [roundTrip ''r'' ''VJ'' 50 ''ECO'' 0 1, oneWay ''j'' ''VJ'' 100 ''ECO'',
      oneWay ''n'' ''VNA'' 50 ''VFR'']
   = [oneWay ''n'' ''VNA'' 50 ''VFR'', oneWay ''j'' ''VJ'' 100 ''ECO'']"
  by (simp add: eval_defs)

section \<open>Properties of the search page\<close>

subsection \<open>Runs of events\<close>

lemma run_Cons: "run st (e # es) = run (step st e) es"
  by (simp add: run_def)

lemma run_Nil: "run st [] = st"
  by (simp add: run_def)

lemma run_append: "run st (es @ es') = run (run st es) es'"
  by (simp add: run_def)

lemma flights_step:
  "\<not> isSearchStarted e \<Longrightarrow> flights (step st e) = flights st @ batchOf e"
  by (cases e) (simp_all add: batchArrived_def fetchFailed_def handleSearchSettled_def Let_def)

lemma flights_run:
  "list_all (\<lambda>e. \<not> isSearchStarted e) es \<Longrightarrow>
     flights (run st es) = flights st @ concat (map batchOf es)"
proof (induction es arbitrary: st)
  case Nil
  then show ?case by (simp add: run_Nil)
next
  case (Cons e es)
  then have "flights (run (step st e) es) = flights (step st e) @ concat (map batchOf es)"
    by simp
  with Cons.prems show ?case by (simp add: run_Cons flights_step)
qed

lemma run_rejections: "list_all isRejection es \<Longrightarrow> run st es = st"
proof (induction es arbitrary: st)
  case Nil
  then show ?case by (simp add: run_Nil)
next
  case (Cons e es)
  then show ?case by (cases e) (simp_all add: run_Cons fetchFailed_def)
qed

lemma foldl_all_rejected:
  "list_all (\<lambda>r. r = Rejected) results \<Longrightarrow>
     foldl (\<lambda>allFlights result.
              case result of Fulfilled v \<Rightarrow> allFlights @ v | Rejected \<Rightarrow> allFlights) acc results = acc"
  by (induction results arbitrary: acc) simp_all

lemma collectFulfilled_all_rejected:
  "list_all (\<lambda>r. r = Rejected) results \<Longrightarrow> collectFulfilled results = []"
  by (simp add: collectFulfilled_def foldl_all_rejected)

lemma evaluate_Nil: "evaluate cfg [] = []"
  by (simp add: evaluate_eq preReduction_eq reduceCheapest_def sortWith_def)

lemma isDirect_departure: "isDirect f \<Longrightarrow> stops (departure f) = 0"
  by (simp add: isDirect_def split: option.splits)

lemma list_ex_isDirect:
  "list_ex isDirect xs \<Longrightarrow> list_ex (\<lambda>f. stops (departure f) = 0) xs"
  unfolding list_ex_iff using isDirect_departure by blast

lemma handleShowMore_fixed:
  "\<not> showCheapestOnly cfg \<Longrightarrow> \<not> directFlightsOnly cfg \<Longrightarrow> \<not> show2pc cfg \<Longrightarrow>
     (handleShowMore ^^ n) cfg = cfg"
  by (induction n) (simp_all add: handleShowMore_def)

subsection \<open>Batches and searches\<close>

text \<open>
  Claim C3, as the code has it. Once a search has started (with a permission), the flight
  collection is the concatenation, in arrival order, of every batch resolved since,
  whichever \<open>handleSearch\<close> call fetched it: the callbacks append to the one \<open>flights\<close>
  state and compare no search identity. A batch of an earlier search that resolves after
  the later search has begun is therefore in the later search's collection.
\<close>

theorem batches_after_search_start_accumulate:
  assumes "canCheckVJ \<or> canCheckVNA" and "list_all (\<lambda>e. \<not> isSearchStarted e) es"
  shows "flights (run st (SearchStarted n canCheckVJ canCheckVNA # es)) = concat (map batchOf es)"
proof -
  have "flights (handleSearchStart canCheckVJ canCheckVNA st) = []"
    using assms(1) by (auto simp: handleSearchStart_def)
  then show ?thesis
    using flights_run[OF assms(2)] by (simp add: run_Cons)
qed

text \<open>
  The theorem at the second of two searches, with one batch of the first search and one
  of the second arriving after it.
\<close>

theorem batches_after_search_start_accumulate_witness:
  "flights (run initialPage
      [SearchStarted 1 True True, SearchStarted 2 True True,
       VietJetResolved 1 [oneWay ''a'' ''VJ'' 100 ''ECO''],
       VietnamAirlinesResolved 2 [oneWay ''n'' ''VNA'' 90 ''VFR'']])
   = [oneWay ''a'' ''VJ'' 100 ''ECO'', oneWay ''n'' ''VNA'' 90 ''VFR'']"
proof -
  have "flights (run (step initialPage (SearchStarted 1 True True))
      (SearchStarted 2 True True #
       [VietJetResolved 1 [oneWay ''a'' ''VJ'' 100 ''ECO''],
        VietnamAirlinesResolved 2 [oneWay ''n'' ''VNA'' 90 ''VFR'']]))
     = concat (map batchOf [VietJetResolved 1 [oneWay ''a'' ''VJ'' 100 ''ECO''],
        VietnamAirlinesResolved 2 [oneWay ''n'' ''VNA'' 90 ''VFR'']])"
    by (rule batches_after_search_start_accumulate) simp_all
  then show ?thesis by (simp add: run_Cons)
qed

text \<open>
  Search 1 is pending when search 2 starts; the VietJet batch of search 1 then resolves
  and is the content of the collection.
\<close>

theorem stale_batch_counterexample:
  "flights (run initialPage
      [SearchStarted 1 True True, SearchStarted 2 True True,
       VietJetResolved 1 [oneWay ''a'' ''VJ'' 100 ''ECO'']])
   = [oneWay ''a'' ''VJ'' 100 ''ECO'']"
  by (simp add: run_def handleSearchStart_def batchArrived_def initialPage_def)

subsection \<open>Show more\<close>

text \<open>
  Claim C4, as the code has it. From filters with \<open>showCheapestOnly\<close> and
  \<open>directFlightsOnly\<close> set, the first \<open>handleShowMore\<close> clears only \<open>showCheapestOnly\<close>,
  the second clears only \<open>directFlightsOnly\<close>, the third takes the fallback branch and
  clears \<open>show2pc\<close>, and every later call leaves the filters as they are.
\<close>

theorem show_more_ladder:
  assumes "showCheapestOnly cfg" and "directFlightsOnly cfg"
  shows "handleShowMore cfg = cfg\<lparr>showCheapestOnly := False\<rparr> \<and>
         handleShowMore (handleShowMore cfg)
           = cfg\<lparr>showCheapestOnly := False, directFlightsOnly := False\<rparr> \<and>
         handleShowMore (handleShowMore (handleShowMore cfg))
           = cfg\<lparr>showCheapestOnly := False, directFlightsOnly := False, show2pc := False\<rparr> \<and>
         (\<forall>n. (handleShowMore ^^ n) (handleShowMore (handleShowMore (handleShowMore cfg)))
           = handleShowMore (handleShowMore (handleShowMore cfg)))"
proof -
  have 1: "handleShowMore cfg = cfg\<lparr>showCheapestOnly := False\<rparr>"
    using assms by (simp add: handleShowMore_def)
  have 2: "handleShowMore (handleShowMore cfg)
           = cfg\<lparr>showCheapestOnly := False, directFlightsOnly := False\<rparr>"
    unfolding 1 using assms by (simp add: handleShowMore_def)
  have 3: "handleShowMore (handleShowMore (handleShowMore cfg))
           = cfg\<lparr>showCheapestOnly := False, directFlightsOnly := False, show2pc := False\<rparr>"
    unfolding 2 by (simp add: handleShowMore_def)
  have 4: "(handleShowMore ^^ n) (handleShowMore (handleShowMore (handleShowMore cfg)))
           = handleShowMore (handleShowMore (handleShowMore cfg))" for n
    unfolding 3 by (rule handleShowMore_fixed) simp_all
  from 1 2 3 4 show ?thesis by blast
qed

text \<open>The theorem at the default filters.\<close>

theorem show_more_ladder_witness:
  "handleShowMore defaultFilters = defaultFilters\<lparr>showCheapestOnly := False\<rparr> \<and>
   handleShowMore (handleShowMore defaultFilters)
     = defaultFilters\<lparr>showCheapestOnly := False, directFlightsOnly := False\<rparr> \<and>
   handleShowMore (handleShowMore (handleShowMore defaultFilters))
     = defaultFilters\<lparr>showCheapestOnly := False, directFlightsOnly := False, show2pc := False\<rparr> \<and>
   (handleShowMore ^^ 2) (handleShowMore (handleShowMore (handleShowMore defaultFilters)))
     = handleShowMore (handleShowMore (handleShowMore defaultFilters))"
proof -
  have h1: "showCheapestOnly defaultFilters" and h2: "directFlightsOnly defaultFilters"
    by (simp_all add: defaultFilters_def)
  from show_more_ladder[OF h1 h2] show ?thesis by blast
qed

text \<open>From the initial filters the third call is not a no-op: it changes \<open>show2pc\<close>.\<close>

theorem third_show_more_counterexample:
  "handleShowMore (handleShowMore (handleShowMore (filters initialPage)))
     \<noteq> handleShowMore (handleShowMore (filters initialPage))"
  by (simp add: handleShowMore_def initialPage_def)

subsection \<open>The adjustment of the filters when the fan-out has settled\<close>

text \<open>
  Claim C5, as the code has it. When the fan-out has settled, \<open>show2pc\<close> stays set exactly
  when it was set and some fulfilled flight is a Vietnam Airlines flight with baggage type
  VFR (VietJet flights do not count). \<open>directFlightsOnly\<close> is cleared when no fulfilled
  flight has a departure leg without stops, and keeps its value when some fulfilled flight
  is direct on every leg it has. A switch that was off stays off, and the other filter
  fields are not touched.
\<close>

theorem settled_adjusts_filters:
  "show2pc (filters (handleSearchSettled results st)) =
     (show2pc (filters st) \<and>
      list_ex (\<lambda>f. airline f = ''VNA'' \<and> baggageType f = ''VFR'') (collectFulfilled results)) \<and>
   (\<not> list_ex (\<lambda>f. stops (departure f) = 0) (collectFulfilled results) \<longrightarrow>
      \<not> directFlightsOnly (filters (handleSearchSettled results st))) \<and>
   (list_ex isDirect (collectFulfilled results) \<longrightarrow>
      directFlightsOnly (filters (handleSearchSettled results st)) = directFlightsOnly (filters st)) \<and>
   (\<not> directFlightsOnly (filters st) \<longrightarrow>
      \<not> directFlightsOnly (filters (handleSearchSettled results st))) \<and>
   airlines (filters (handleSearchSettled results st)) = airlines (filters st) \<and>
   showCheapestOnly (filters (handleSearchSettled results st)) = showCheapestOnly (filters st) \<and>
   sortBy (filters (handleSearchSettled results st)) = sortBy (filters st)"
  using list_ex_isDirect[of "collectFulfilled results"]
  by (simp add: handleSearchSettled_def Let_def)

text \<open>
  The theorem at a fan-out where Vietnam Airlines returned a direct VFR flight and VietJet
  failed, and at one where both failed.
\<close>

theorem settled_adjusts_filters_witness:
  "list_ex isDirect (collectFulfilled [Fulfilled [oneWay ''n'' ''VNA'' 90 ''VFR''], Rejected]) \<and>
   directFlightsOnly (filters (handleSearchSettled
       [Fulfilled [oneWay ''n'' ''VNA'' 90 ''VFR''], Rejected] initialPage)) \<and>
   show2pc (filters (handleSearchSettled
       [Fulfilled [oneWay ''n'' ''VNA'' 90 ''VFR''], Rejected] initialPage)) \<and>
   \<not> show2pc (filters (handleSearchSettled [Rejected, Rejected] initialPage)) \<and>
   \<not> directFlightsOnly (filters (handleSearchSettled [Rejected, Rejected] initialPage))"
proof -
  have d: "list_ex isDirect (collectFulfilled [Fulfilled [oneWay ''n'' ''VNA'' 90 ''VFR''], Rejected])"
    by (simp add: collectFulfilled_def isDirect_def oneWay_def)
  have v: "list_ex (\<lambda>f. airline f = ''VNA'' \<and> baggageType f = ''VFR'')
     (collectFulfilled [Fulfilled [oneWay ''n'' ''VNA'' 90 ''VFR''], Rejected])"
    by (simp add: collectFulfilled_def oneWay_def)
  have i: "directFlightsOnly (filters initialPage)" "show2pc (filters initialPage)"
    by (simp_all add: initialPage_def)
  have n: "\<not> list_ex (\<lambda>f. stops (departure f) = 0) (collectFulfilled [Rejected, Rejected])"
    "\<not> list_ex (\<lambda>f. airline f = ''VNA'' \<and> baggageType f = ''VFR'') (collectFulfilled [Rejected, Rejected])"
    by (simp_all add: collectFulfilled_def)
  from settled_adjusts_filters[of "[Fulfilled [oneWay ''n'' ''VNA'' 90 ''VFR''], Rejected]" initialPage]
    settled_adjusts_filters[of "[Rejected, Rejected]" initialPage] d v i n
  show ?thesis by blast
qed

text \<open>
  A search with the VietJet permission only: its flight satisfies the two-bag predicate of
  the pipeline, and \<open>show2pc\<close> is cleared all the same.
\<close>

theorem vietjet_only_downgrade_counterexample:
  "is2pc (oneWay ''a'' ''VJ'' 100 ''ECO'') \<and>
   show2pc (filters (run initialPage
      [SearchStarted 1 True False, VietJetResolved 1 [oneWay ''a'' ''VJ'' 100 ''ECO'']])) \<and>
   \<not> show2pc (filters (run initialPage
      [SearchStarted 1 True False, VietJetResolved 1 [oneWay ''a'' ''VJ'' 100 ''ECO''],
       AllSettled 1 [Fulfilled [oneWay ''a'' ''VJ'' 100 ''ECO'']]]))"
  by (simp add: run_def handleSearchStart_def batchArrived_def handleSearchSettled_def
      collectFulfilled_def initialPage_def is2pc_def oneWay_def)

subsection \<open>Every source fails\<close>

text \<open>
  Claim C6, as the code has it. When every fetch of a search is rejected, the search ends
  with an empty flight collection, \<open>loading\<close> off and \<open>error\<close> still \<open>null\<close> (a rejection
  is only logged, nothing is recorded per source); \<open>directFlightsOnly\<close> and \<open>show2pc\<close>
  are cleared while \<open>showCheapestOnly\<close> stays set, so \<open>shouldShowMoreButton\<close> is true;
  the button is not rendered, the filtered list being empty.
\<close>

theorem total_failure_outcome:
  assumes "canCheckVJ \<or> canCheckVNA" and "list_all isRejection es"
    and "list_all (\<lambda>r. r = Rejected) results"
  shows "(let st' = run st (SearchStarted n canCheckVJ canCheckVNA # es @ [AllSettled n results])
          in flights st' = [] \<and> \<not> loading st' \<and> error st' = None \<and> searchPerformed st' \<and>
             filters st' = \<lparr>airlines = availableAirlines canCheckVJ canCheckVNA,
                             showCheapestOnly = True, directFlightsOnly = False,
                             show2pc = False, sortBy = ''price''\<rparr> \<and>
             shouldShowMoreButton (filters st') \<and>
             filteredFlights st' = [] \<and> \<not> showMoreRendered st')"
proof -
  let ?s0 = "handleSearchStart canCheckVJ canCheckVNA st"
  let ?st' = "run st (SearchStarted n canCheckVJ canCheckVNA # es @ [AllSettled n results])"
  have r: "?st' = handleSearchSettled results ?s0"
    by (simp add: run_Cons run_append run_rejections[OF assms(2)] run_Nil)
  have s0: "?s0 = st\<lparr>loading := True, error := None, searchPerformed := True, flights := [],
              filters := \<lparr>airlines = availableAirlines canCheckVJ canCheckVNA,
                          showCheapestOnly = True, directFlightsOnly = True,
                          show2pc = True, sortBy = ''price''\<rparr>\<rparr>"
    using assms(1) by (auto simp: handleSearchStart_def)
  have f: "flights ?st' = []" and l: "\<not> loading ?st'" and e: "error ?st' = None"
    and p: "searchPerformed ?st'"
    and c: "filters ?st' = \<lparr>airlines = availableAirlines canCheckVJ canCheckVNA,
                             showCheapestOnly = True, directFlightsOnly = False,
                             show2pc = False, sortBy = ''price''\<rparr>"
    unfolding r s0
    by (simp_all add: handleSearchSettled_def collectFulfilled_all_rejected[OF assms(3)])
  have b: "shouldShowMoreButton (filters ?st')"
    unfolding c by (simp add: shouldShowMoreButton_def)
  have v: "filteredFlights ?st' = []"
    by (simp add: filteredFlights_def f evaluate_Nil)
  have "\<not> showMoreRendered ?st'"
    by (simp add: showMoreRendered_def v)
  with f l e p c b v show ?thesis by (simp only: Let_def) blast
qed

text \<open>The theorem at a search with both permissions whose two fetches are rejected.\<close>

theorem total_failure_outcome_witness:
  "run initialPage
     [SearchStarted 1 True True, VietnamAirlinesRejected 1, VietJetRejected 1,
      AllSettled 1 [Rejected, Rejected]]
   = \<lparr>flights = [], loading = False, error = None, searchPerformed = True,
      filters = \<lparr>airlines = [''VJ'', ''VNA''], showCheapestOnly = True,
                 directFlightsOnly = False, show2pc = False, sortBy = ''price''\<rparr>\<rparr>"
proof -
  let ?st' = "run initialPage (SearchStarted 1 True True #
      [VietnamAirlinesRejected 1, VietJetRejected 1] @ [AllSettled 1 [Rejected, Rejected]])"
  have "(let st' = ?st'
          in flights st' = [] \<and> \<not> loading st' \<and> error st' = None \<and> searchPerformed st' \<and>
             filters st' = \<lparr>airlines = availableAirlines True True,
                             showCheapestOnly = True, directFlightsOnly = False,
                             show2pc = False, sortBy = ''price''\<rparr> \<and>
             shouldShowMoreButton (filters st') \<and>
             filteredFlights st' = [] \<and> \<not> showMoreRendered st')"
    by (rule total_failure_outcome) simp_all
  then have "flights ?st' = []" "loading ?st' = False" "error ?st' = None"
    "searchPerformed ?st' = True"
    "filters ?st' = \<lparr>airlines = [''VJ'', ''VNA''], showCheapestOnly = True,
                 directFlightsOnly = False, show2pc = False, sortBy = ''price''\<rparr>"
    by (simp_all add: Let_def availableAirlines_def)
  then have "?st' = \<lparr>flights = [], loading = False, error = None, searchPerformed = True,
      filters = \<lparr>airlines = [''VJ'', ''VNA''], showCheapestOnly = True,
                 directFlightsOnly = False, show2pc = False, sortBy = ''price''\<rparr>\<rparr>"
    by (cases ?st') simp
  then show ?thesis by simp
qed

text \<open>
  After both sources have failed, \<open>shouldShowMoreButton\<close> is true and no error has been
  recorded.
\<close>

theorem total_failure_signal_counterexample:
  "shouldShowMoreButton (filters (run initialPage
     [SearchStarted 1 True True, VietJetRejected 1, VietnamAirlinesRejected 1,
      AllSettled 1 [Rejected, Rejected]])) \<and>
   error (run initialPage
     [SearchStarted 1 True True, VietJetRejected 1, VietnamAirlinesRejected 1,
      AllSettled 1 [Rejected, Rejected]]) = None"
  by (simp add: run_def handleSearchStart_def fetchFailed_def handleSearchSettled_def
      collectFulfilled_def initialPage_def shouldShowMoreButton_def)

end
